theory Spec2Isabelle
  imports Main
begin

section \<open>Package version, file prop.go: build and platform properties\<close>

text \<open>
  Go strings are byte sequences, so a Go \<^verbatim>\<open>string\<close> is a \<^typ>\<open>string\<close> here
  (a list of 8-bit characters) and \<^verbatim>\<open>len\<close> is \<^const>\<open>length\<close>. The functions of
  the Go standard library that prop.go calls are modelled first, each after its
  documented behaviour; the package's own functions follow, one definition per Go
  function, under the Go name.
\<close>

subsection \<open>Standard library: package strings\<close>

text \<open>\<^verbatim>\<open>strings.HasPrefix(s, prefix)\<close>:
  \<^verbatim>\<open>len(s) >= len(prefix) && s[:len(prefix)] == prefix\<close>.\<close>

definition strings_HasPrefix :: "string \<Rightarrow> string \<Rightarrow> bool" where
  "strings_HasPrefix s pre = (length pre \<le> length s \<and> take (length pre) s = pre)"

text \<open>\<^verbatim>\<open>strings.HasSuffix(s, suffix)\<close>:
  \<^verbatim>\<open>len(s) >= len(suffix) && s[len(s)-len(suffix):] == suffix\<close>.\<close>

definition strings_HasSuffix :: "string \<Rightarrow> string \<Rightarrow> bool" where
  "strings_HasSuffix s suf =
     (length suf \<le> length s \<and> drop (length s - length suf) s = suf)"

text \<open>\<^verbatim>\<open>strings.Index(s, substr)\<close>: the index of the first instance of
  \<^verbatim>\<open>substr\<close> in \<^verbatim>\<open>s\<close>; Go's \<^verbatim>\<open>-1\<close> is \<^const>\<open>None\<close>.\<close>

fun strings_Index :: "string \<Rightarrow> string \<Rightarrow> nat option" where
  "strings_Index [] substr = (if substr = [] then Some 0 else None)"
| "strings_Index (c # s) substr =
     (if strings_HasPrefix (c # s) substr then Some 0
      else map_option Suc (strings_Index s substr))"

text \<open>\<^verbatim>\<open>strings.Contains(s, substr)\<close>: \<^verbatim>\<open>Index(s, substr) >= 0\<close>.\<close>

definition strings_Contains :: "string \<Rightarrow> string \<Rightarrow> bool" where
  "strings_Contains s substr = (strings_Index s substr \<noteq> None)"

text \<open>\<^verbatim>\<open>strings.Cut(s, sep)\<close> slices \<^verbatim>\<open>s\<close> around the first instance of
  \<^verbatim>\<open>sep\<close> and returns \<^verbatim>\<open>(before, after, found)\<close>; when \<^verbatim>\<open>sep\<close> does not
  occur the result is \<^verbatim>\<open>(s, "", false)\<close>.\<close>

definition strings_Cut :: "string \<Rightarrow> string \<Rightarrow> string \<times> string \<times> bool" where
  "strings_Cut s sep =
     (case strings_Index s sep of
        Some i \<Rightarrow> (take i s, drop (i + length sep) s, True)
      | None \<Rightarrow> (s, [], False))"

text \<open>
  \<^verbatim>\<open>strings.EqualFold(s, t)\<close> compares under simple Unicode case folding. Its first
  loop is the byte-wise ASCII path below. As soon as either byte is \<^verbatim>\<open>0x80\<close> or
  more (\<^verbatim>\<open>sr|tr >= utf8.RuneSelf\<close>) the Go code jumps to a rune-wise comparison
  of the two remainders that consults the Unicode folding tables; that continuation is
  the parameter \<open>hasUnicode\<close>.
\<close>

fun strings_EqualFold :: "(string \<Rightarrow> string \<Rightarrow> bool) \<Rightarrow> string \<Rightarrow> string \<Rightarrow> bool" where
  "strings_EqualFold hasUnicode (sr # s) (tr # t) =
     (if (128::nat) \<le> of_char sr \<or> (128::nat) \<le> of_char tr
        then hasUnicode (sr # s) (tr # t)
      else if tr = sr then strings_EqualFold hasUnicode s t
      else
        (let lo = min (of_char sr) (of_char tr) :: nat;
             hi = max (of_char sr) (of_char tr) :: nat
         in if 65 \<le> lo \<and> lo \<le> 90 \<and> hi = lo + 97 - 65
              then strings_EqualFold hasUnicode s t
            else False))"
| "strings_EqualFold hasUnicode s t = (length s = length t)"

subsection \<open>Standard library: package strconv\<close>

text \<open>The digit loop of \<^verbatim>\<open>strconv.ParseUint\<close> in base 10, on an unbounded
  accumulator: \<^const>\<open>None\<close> is the syntax error for a byte that is not a digit.\<close>

fun parseDigits :: "string \<Rightarrow> int \<Rightarrow> int option" where
  "parseDigits [] n = Some n"
| "parseDigits (c # cs) n =
     (if (48::int) \<le> of_char c \<and> of_char c \<le> (57::int)
        then parseDigits cs (n * 10 + (of_char c - 48))
      else None)"

text \<open>
  \<^verbatim>\<open>strconv.Atoi(s)\<close>, that is \<^verbatim>\<open>ParseInt(s, 10, 0)\<close>: an optional sign
  \<^verbatim>\<open>+\<close> or \<^verbatim>\<open>-\<close>, then one or more decimal digits, the value within the range of
  \<^verbatim>\<open>int\<close>, which has \<open>bitSize\<close> bits (32 or 64 by platform). \<^const>\<open>None\<close> stands
  for a non-nil error, syntax or range: prop.go only tests \<^verbatim>\<open>err != nil\<close>.
\<close>

definition strconv_Atoi :: "nat \<Rightarrow> string \<Rightarrow> int option" where
  "strconv_Atoi bitSize s =
     (case s of
        [] \<Rightarrow> None
      | c # cs \<Rightarrow>
          (let neg = (c = CHR ''-'');
               ds = (if c = CHR ''+'' \<or> c = CHR ''-'' then cs else s)
           in if ds = [] then None
              else case parseDigits ds 0 of
                     None \<Rightarrow> None
                   | Some un \<Rightarrow>
                       (let cutoff = (2::int) ^ (bitSize - 1)
                        in if \<not> neg \<and> cutoff \<le> un then None
                           else if neg \<and> cutoff < un then None
                           else Some (if neg then - un else un))))"

text \<open>Go's remainder \<^verbatim>\<open>x % y\<close> truncates towards zero: the result has the sign
  of \<^verbatim>\<open>x\<close>. (HOL's \<open>mod\<close> on \<^typ>\<open>int\<close> rounds towards minus infinity.)\<close>

definition go_rem :: "int \<Rightarrow> int \<Rightarrow> int" where
  "go_rem x y = sgn x * (\<bar>x\<bar> mod \<bar>y\<bar>)"

subsection \<open>Standard library: package path/filepath\<close>

text \<open>
  \<^verbatim>\<open>filepath.Base(path)\<close> returns the last element of the path. Trailing separators
  are removed first, then the leading volume name; an empty path gives \<^verbatim>\<open>"."\<close> and a
  path of separators only gives one separator. The platform enters through
  \<open>isSep\<close> (\<^verbatim>\<open>os.IsPathSeparator\<close>), \<open>volLen\<close> (the length of
  \<^verbatim>\<open>filepath.VolumeName(path)\<close>) and \<open>sep\<close> (\<^verbatim>\<open>filepath.Separator\<close>).
\<close>

text \<open>\<^verbatim>\<open>for len(path) > 0 && os.IsPathSeparator(path[len(path)-1]) { path = path[0 : len(path)-1] }\<close>\<close>

definition stripTrailing :: "(char \<Rightarrow> bool) \<Rightarrow> string \<Rightarrow> string" where
  "stripTrailing isSep path = rev (dropWhile isSep (rev path))"

text \<open>\<^verbatim>\<open>i := len(path) - 1; for i >= 0 && !os.IsPathSeparator(path[i]) { i-- };
  if i >= 0 { path = path[i+1:] }\<close>: the part after the last separator, or all of the
  path when it has none.\<close>

definition lastElement :: "(char \<Rightarrow> bool) \<Rightarrow> string \<Rightarrow> string" where
  "lastElement isSep path = rev (takeWhile (\<lambda>c. \<not> isSep c) (rev path))"

definition filepath_Base_on :: "(char \<Rightarrow> bool) \<Rightarrow> (string \<Rightarrow> nat) \<Rightarrow> char \<Rightarrow> string \<Rightarrow> string" where
  "filepath_Base_on isSep volLen sep path =
     (if path = [] then ''.''
      else
        (let p1 = stripTrailing isSep path;
             p2 = drop (volLen p1) p1;
             p3 = lastElement isSep p2
         in if p3 = [] then [sep] else p3))"

text \<open>On Unix (darwin included) the separator is \<^verbatim>\<open>/\<close> and there is no volume name.\<close>

definition filepath_Base :: "string \<Rightarrow> string" where
  "filepath_Base path = filepath_Base_on (\<lambda>c. c = CHR ''/'') (\<lambda>p. 0) (CHR ''/'') path"

text \<open>On Windows both the backslash (byte \<^verbatim>\<open>0x5C\<close>) and \<^verbatim>\<open>/\<close> separate, and a path may start
  with a volume name (a drive letter or a UNC share) whose length \<open>volumeNameLen\<close>
  computes; it is a parameter here.\<close>

definition filepath_Base_windows :: "(string \<Rightarrow> nat) \<Rightarrow> string \<Rightarrow> string" where
  "filepath_Base_windows volumeNameLen path =
     filepath_Base_on (\<lambda>c. c = CHR 0x5C \<or> c = CHR ''/'') volumeNameLen (CHR 0x5C) path"

subsection \<open>The process environment\<close>

text \<open>
  What prop.go reads and does not compute: \<^verbatim>\<open>runtime.GOOS\<close>, the outcome of
  \<^verbatim>\<open>os.Executable()\<close> (\<^const>\<open>None\<close> when it returns an error), the width of
  \<^verbatim>\<open>int\<close>, the version variables of the package that are stamped elsewhere
  (\<^verbatim>\<open>Short\<close>, \<^verbatim>\<open>Long\<close>, \<^verbatim>\<open>majorMinorPatch\<close>, \<^verbatim>\<open>GitCommit\<close>, \<^verbatim>\<open>GitDirty\<close>,
  \<^verbatim>\<open>ExtraGitCommit\<close>) and \<^verbatim>\<open>tailcfg.CurrentCapabilityVersion\<close>, whose type
  \<^verbatim>\<open>CapabilityVersion\<close> is an \<^verbatim>\<open>int\<close>. The two library parameters of the
  previous subsections are carried here as well. The fields are named after the Go
  package they come from, which also keeps them apart from the fields of \<^verbatim>\<open>Meta\<close>.
\<close>

record env =
  runtime_GOOS :: string
  os_Executable_result :: "string option"
  strconv_IntSize :: nat
  version_majorMinorPatch :: string
  version_Short :: string
  version_Long :: string
  version_GitCommit :: string
  version_GitDirty :: bool
  version_ExtraGitCommit :: string
  tailcfg_CurrentCapabilityVersion :: int
  filepath_volumeNameLen :: "string \<Rightarrow> nat"
  strings_hasUnicode :: "string \<Rightarrow> string \<Rightarrow> bool"

subsection \<open>Package-level variables\<close>

text \<open>
  The \<^verbatim>\<open>var\<close> blocks of prop.go. A \<^verbatim>\<open>sync.Once\<close> is its done flag. The last
  field is a ghost counter, not a Go variable: the number of calls of
  \<^verbatim>\<open>os.Executable\<close> made so far, which makes path resolution observable.
\<close>

record state =
  macFlavorOnce :: bool
  isMacSysExt :: bool
  isMacSandboxed :: bool
  winFlavorOnce :: bool
  isWindowsGUI :: bool
  isUnstableOnce :: bool
  isUnstableBuild :: bool
  executableCalls :: nat

text \<open>The state of a fresh process: every variable at its zero value.\<close>

definition init_state :: state where
  "init_state =
     \<lparr>macFlavorOnce = False, isMacSysExt = False, isMacSandboxed = False,
      winFlavorOnce = False, isWindowsGUI = False,
      isUnstableOnce = False, isUnstableBuild = False, executableCalls = 0\<rparr>"

text \<open>\<^verbatim>\<open>os.Executable()\<close> returns \<^verbatim>\<open>(path, err)\<close>; on failure the path is
  empty and the error is not nil (the second component is \<^verbatim>\<open>err != nil\<close>).\<close>

definition os_Executable :: "env \<Rightarrow> state \<Rightarrow> (string \<times> bool) \<times> state" where
  "os_Executable e s =
     ((case os_Executable_result e of None \<Rightarrow> ([], True) | Some p \<Rightarrow> (p, False)),
      s\<lparr>executableCalls := Suc (executableCalls s)\<rparr>)"

text \<open>\<^verbatim>\<open>once.Do(f)\<close> on one goroutine: \<^verbatim>\<open>f\<close> runs if the flag is not set, and
  the flag is set when \<^verbatim>\<open>f\<close> returns.\<close>

definition macFlavorOnce_Do :: "(state \<Rightarrow> state) \<Rightarrow> state \<Rightarrow> state" where
  "macFlavorOnce_Do f s = (if macFlavorOnce s then s else (f s)\<lparr>macFlavorOnce := True\<rparr>)"

definition isUnstableOnce_Do :: "(state \<Rightarrow> state) \<Rightarrow> state \<Rightarrow> state" where
  "isUnstableOnce_Do f s = (if isUnstableOnce s then s else (f s)\<lparr>isUnstableOnce := True\<rparr>)"

subsection \<open>The functions of prop.go\<close>

definition IsMobile :: "env \<Rightarrow> bool" where
  "IsMobile e = (runtime_GOOS e = ''android'' \<or> runtime_GOOS e = ''ios'')"

definition OS :: "env \<Rightarrow> string" where
  "OS e =
     (if runtime_GOOS e = ''ios'' then ''iOS''
      else if runtime_GOOS e = ''darwin'' then ''macOS''
      else runtime_GOOS e)"

definition initMacFlavor :: "env \<Rightarrow> state \<Rightarrow> state" where
  "initMacFlavor e s =
     (case os_Executable e s of
        ((exe, err), s1) \<Rightarrow>
          if err then s1
          else
            (let s2 = s1\<lparr>isMacSysExt :=
                        (filepath_Base exe = ''io.tailscale.ipn.macsys.network-extension'')\<rparr>
             in s2\<lparr>isMacSandboxed :=
                     (isMacSysExt s2
                      \<or> strings_HasSuffix exe ''/Contents/MacOS/Tailscale''
                      \<or> strings_HasSuffix exe ''/Contents/MacOS/IPNExtension'')\<rparr>))"

definition IsSandboxedMacOS :: "env \<Rightarrow> state \<Rightarrow> bool \<times> state" where
  "IsSandboxedMacOS e s =
     (if runtime_GOOS e \<noteq> ''darwin'' then (False, s)
      else (let s' = macFlavorOnce_Do (initMacFlavor e) s in (isMacSandboxed s', s')))"

definition IsMacSysExt :: "env \<Rightarrow> state \<Rightarrow> bool \<times> state" where
  "IsMacSysExt e s =
     (if runtime_GOOS e \<noteq> ''darwin'' then (False, s)
      else (let s' = macFlavorOnce_Do (initMacFlavor e) s in (isMacSysExt s', s')))"

text \<open>\<^verbatim>\<open>initWinFlavor\<close> is defined in prop.go and called from nowhere; it compares
  the whole path, not its base name.\<close>

definition initWinFlavor :: "env \<Rightarrow> state \<Rightarrow> state" where
  "initWinFlavor e s =
     (case os_Executable e s of
        ((exe, err), s1) \<Rightarrow>
          if err then s1
          else s1\<lparr>isWindowsGUI :=
                   (strings_EqualFold (strings_hasUnicode e) exe ''tailscale-ipn.exe''
                    \<or> strings_EqualFold (strings_hasUnicode e) exe ''tailscale-ipn'')\<rparr>)"

definition IsWindowsGUI :: "env \<Rightarrow> state \<Rightarrow> bool \<times> state" where
  "IsWindowsGUI e s =
     (if runtime_GOOS e \<noteq> ''windows'' then (False, s)
      else
        (case os_Executable e s of
           ((exe, err), s1) \<Rightarrow>
             (let exe' = filepath_Base_windows (filepath_volumeNameLen e) exe
              in (strings_EqualFold (strings_hasUnicode e) exe' ''tailscale-ipn.exe''
                  \<or> strings_EqualFold (strings_hasUnicode e) exe' ''tailscale-ipn'',
                  s1))))"

definition initUnstable :: "env \<Rightarrow> state \<Rightarrow> state" where
  "initUnstable e s =
     (case strings_Cut (version_Short e) ''.'' of
        (_, rest, ok) \<Rightarrow>
          if \<not> ok then s
          else
            (case strings_Cut rest ''.'' of
               (minorStr, _, ok') \<Rightarrow>
                 if \<not> ok' then s
                 else
                   (case strconv_Atoi (strconv_IntSize e) minorStr of
                      None \<Rightarrow> s
                    | Some minor \<Rightarrow> s\<lparr>isUnstableBuild := (go_rem minor 2 = 1)\<rparr>)))"

definition IsUnstableBuild :: "env \<Rightarrow> state \<Rightarrow> bool \<times> state" where
  "IsUnstableBuild e s =
     (let s' = isUnstableOnce_Do (initUnstable e) s in (isUnstableBuild s', s'))"

text \<open>The struct \<^verbatim>\<open>Meta\<close>, field for field.\<close>

record Meta =
  MajorMinorPatch :: string
  IsDev :: bool
  Short :: string
  Long :: string
  UnstableBranch :: bool
  GitCommit :: string
  GitDirty :: bool
  ExtraGitCommit :: string
  DaemonLong :: string
  Cap :: int

text \<open>\<^verbatim>\<open>GetMeta\<close> sets nine fields in its composite literal; \<^verbatim>\<open>DaemonLong\<close> is
  not among them and so has the zero value of its type, the empty string.\<close>

definition GetMeta :: "env \<Rightarrow> state \<Rightarrow> Meta \<times> state" where
  "GetMeta e s =
     (case IsUnstableBuild e s of
        (unstable, s') \<Rightarrow>
          (\<lparr>MajorMinorPatch = version_majorMinorPatch e,
            IsDev = strings_Contains (version_Short e) ''-dev'',
            Short = version_Short e,
            Long = version_Long e,
            UnstableBranch = unstable,
            GitCommit = version_GitCommit e,
            GitDirty = version_GitDirty e,
            ExtraGitCommit = version_ExtraGitCommit e,
            DaemonLong = [],
            Cap = tailcfg_CurrentCapabilityVersion e\<rparr>,
           s'))"

subsection \<open>A process as a sequence of accessor calls\<close>

text \<open>The public accessors of the file, the values they return, and a process that calls
  them one after another on the package variables.\<close>

datatype accessor =
  Call_IsMobile | Call_OS | Call_IsSandboxedMacOS | Call_IsMacSysExt
  | Call_IsWindowsGUI | Call_IsUnstableBuild | Call_GetMeta

datatype result = Bool_result bool | String_result string | Meta_result Meta

fun call :: "env \<Rightarrow> accessor \<Rightarrow> state \<Rightarrow> result \<times> state" where
  "call e Call_IsMobile s = (Bool_result (IsMobile e), s)"
| "call e Call_OS s = (String_result (OS e), s)"
| "call e Call_IsSandboxedMacOS s =
     (case IsSandboxedMacOS e s of (b, s') \<Rightarrow> (Bool_result b, s'))"
| "call e Call_IsMacSysExt s =
     (case IsMacSysExt e s of (b, s') \<Rightarrow> (Bool_result b, s'))"
| "call e Call_IsWindowsGUI s =
     (case IsWindowsGUI e s of (b, s') \<Rightarrow> (Bool_result b, s'))"
| "call e Call_IsUnstableBuild s =
     (case IsUnstableBuild e s of (b, s') \<Rightarrow> (Bool_result b, s'))"
| "call e Call_GetMeta s =
     (case GetMeta e s of (m, s') \<Rightarrow> (Meta_result m, s'))"

fun run :: "env \<Rightarrow> accessor list \<Rightarrow> state \<Rightarrow> state" where
  "run e [] s = s"
| "run e (a # as) s = run e as (snd (call e a s))"

text \<open>An environment to evaluate the functions on: the daemon on Linux, a development
  build of an unstable release. Its volume-name function knows drive letters only.\<close>

definition example_env :: env where
  "example_env =
     \<lparr>runtime_GOOS = ''linux'',
      os_Executable_result = Some ''/usr/sbin/tailscaled'',
      strconv_IntSize = 64,
      version_majorMinorPatch = ''1.3.0'',
      version_Short = ''1.3.0-dev'',
      version_Long = ''1.3.0-dev-t0123abc'',
      version_GitCommit = ''0123abc'',
      version_GitDirty = False,
      version_ExtraGitCommit = [],
      tailcfg_CurrentCapabilityVersion = 61,
      filepath_volumeNameLen =
        (\<lambda>p. if 2 \<le> length p \<and> p ! 1 = CHR '':'' then 2 else 0),
      strings_hasUnicode = (\<lambda>s t. False)\<rparr>"


subsection \<open>What the cached variables hold\<close>

text \<open>The pair \<^verbatim>\<open>(isMacSysExt, isMacSandboxed)\<close> that \<^const>\<open>initMacFlavor\<close> leaves
  behind in a fresh process, and the value of \<^verbatim>\<open>isUnstableBuild\<close> that
  \<^const>\<open>initUnstable\<close> leaves behind, as functions of the environment.\<close>

definition macFlavor_of :: "env \<Rightarrow> bool \<times> bool" where
  "macFlavor_of e =
     (case os_Executable_result e of
        None \<Rightarrow> (False, False)
      | Some exe \<Rightarrow>
          (let sysExt = (filepath_Base exe = ''io.tailscale.ipn.macsys.network-extension'')
           in (sysExt,
               sysExt \<or> strings_HasSuffix exe ''/Contents/MacOS/Tailscale''
                      \<or> strings_HasSuffix exe ''/Contents/MacOS/IPNExtension'')))"

definition unstable_of :: "env \<Rightarrow> bool" where
  "unstable_of e = isUnstableBuild (initUnstable e init_state)"


text \<open>The invariant of the package variables: a guarded variable is at its zero value
  until its \<^verbatim>\<open>sync.Once\<close> is done and holds the computed value afterwards.\<close>

definition caches_ok :: "env \<Rightarrow> state \<Rightarrow> bool" where
  "caches_ok e s =
     (isMacSysExt s = (macFlavorOnce s \<and> fst (macFlavor_of e))
      \<and> isMacSandboxed s = (macFlavorOnce s \<and> snd (macFlavor_of e))
      \<and> isUnstableBuild s = (isUnstableOnce s \<and> unstable_of e))"

subsection \<open>Vocabulary of the properties\<close>

text \<open>ASCII lower-casing of one byte: \<^verbatim>\<open>A\<close> to \<^verbatim>\<open>Z\<close> (65 to 90) move up by 32,
  every other byte stays.\<close>

definition asciiLower :: "char \<Rightarrow> char" where
  "asciiLower c =
     (if (65::nat) \<le> of_char c \<and> of_char c \<le> (90::nat)
        then char_of (of_char c + 32 :: nat)
      else c)"

text \<open>The value of the local variable \<^verbatim>\<open>exe\<close> of \<^verbatim>\<open>IsWindowsGUI\<close> after the
  statement \<^verbatim>\<open>exe = filepath.Base(exe)\<close>: the name that is compared.\<close>

definition windowsExeName :: "env \<Rightarrow> string" where
  "windowsExeName e =
     filepath_Base_windows (filepath_volumeNameLen e)
       (case os_Executable_result e of None \<Rightarrow> [] | Some p \<Rightarrow> p)"

text \<open>Three more environments: the macOS system extension, the Windows GUI started
  from a path that differs from the accepted name in letter case only, and a Windows
  process whose path resolution fails.\<close>

definition macsys_env :: env where
  "macsys_env =
     example_env
       \<lparr>runtime_GOOS := ''darwin'',
        os_Executable_result :=
          Some ''/Library/SystemExtensions/A1/io.tailscale.ipn.macsys.network-extension''\<rparr>"

definition windows_env :: env where
  "windows_env =
     example_env
       \<lparr>runtime_GOOS := ''windows'',
        os_Executable_result :=
          Some (''C:'' @ CHR 0x5C # ''Program Files'' @ CHR 0x5C # ''Tailscale''
                @ CHR 0x5C # ''Tailscale-IPN.EXE'')\<rparr>"

definition failing_windows_env :: env where
  "failing_windows_env =
     example_env\<lparr>runtime_GOOS := ''windows'', os_Executable_result := None\<rparr>"

text \<open>The specification's minor field: the text between the first and the second
  \<^verbatim>\<open>.\<close> of a version string, when it has two.\<close>

definition minorField :: "string \<Rightarrow> string option" where
  "minorField v =
     (let rest = tl (dropWhile (\<lambda>c. c \<noteq> CHR ''.'') v)
      in if CHR ''.'' \<in> set v \<and> CHR ''.'' \<in> set rest
           then Some (takeWhile (\<lambda>c. c \<noteq> CHR ''.'') rest)
         else None)"

section \<open>Verification\<close>

subsection \<open>Facts about the library functions\<close>

lemma strings_HasPrefix_iff: "strings_HasPrefix s pre = (\<exists>post. s = pre @ post)"
proof
  assume "strings_HasPrefix s pre"
  then have "s = pre @ drop (length pre) s"
    by (metis append_take_drop_id strings_HasPrefix_def)
  then show "\<exists>post. s = pre @ post" ..
next
  assume "\<exists>post. s = pre @ post"
  then show "strings_HasPrefix s pre"
    by (auto simp: strings_HasPrefix_def)
qed

lemma strings_HasSuffix_iff: "strings_HasSuffix s suf = (\<exists>pre. s = pre @ suf)"
proof
  assume "strings_HasSuffix s suf"
  then have "s = take (length s - length suf) s @ suf"
    by (metis append_take_drop_id strings_HasSuffix_def)
  then show "\<exists>pre. s = pre @ suf" ..
next
  assume "\<exists>pre. s = pre @ suf"
  then show "strings_HasSuffix s suf"
    by (auto simp: strings_HasSuffix_def)
qed

lemma occurs_Cons:
  "(\<exists>pre post. c # s = pre @ sub @ post)
     = (strings_HasPrefix (c # s) sub \<or> (\<exists>pre post. s = pre @ sub @ post))"
proof
  assume "\<exists>pre post. c # s = pre @ sub @ post"
  then obtain pre post where eq: "c # s = pre @ sub @ post" by blast
  show "strings_HasPrefix (c # s) sub \<or> (\<exists>pre post. s = pre @ sub @ post)"
  proof (cases pre)
    case Nil
    with eq show ?thesis by (auto simp: strings_HasPrefix_iff)
  next
    case (Cons a pre')
    with eq have "s = pre' @ sub @ post" by simp
    then show ?thesis by blast
  qed
next
  assume "strings_HasPrefix (c # s) sub \<or> (\<exists>pre post. s = pre @ sub @ post)"
  then show "\<exists>pre post. c # s = pre @ sub @ post"
  proof
    assume "strings_HasPrefix (c # s) sub"
    then obtain post where "c # s = [] @ sub @ post"
      by (auto simp: strings_HasPrefix_iff)
    then show ?thesis by blast
  next
    assume "\<exists>pre post. s = pre @ sub @ post"
    then obtain pre post where "s = pre @ sub @ post" by blast
    then have "c # s = (c # pre) @ sub @ post" by simp
    then show ?thesis by blast
  qed
qed

lemma strings_Index_None_iff:
  "(strings_Index s sub = None) = (\<not> (\<exists>pre post. s = pre @ sub @ post))"
proof (induction s)
  case Nil
  then show ?case by simp
next
  case (Cons c s)
  then show ?case by (simp add: occurs_Cons)
qed

lemma strings_Contains_iff:
  "strings_Contains s sub = (\<exists>pre post. s = pre @ sub @ post)"
  by (simp add: strings_Contains_def strings_Index_None_iff)

lemma strings_Index_byte:
  "strings_Index s [c] =
     (if c \<in> set s then Some (length (takeWhile (\<lambda>x. x \<noteq> c) s)) else None)"
  by (induction s) (auto simp: strings_HasPrefix_def)

lemma strings_Cut_byte:
  "strings_Cut s [c] =
     (takeWhile (\<lambda>x. x \<noteq> c) s, tl (dropWhile (\<lambda>x. x \<noteq> c) s), c \<in> set s)"
proof (cases "c \<in> set s")
  case True
  have "take (length (takeWhile (\<lambda>x. x \<noteq> c) s)) s = takeWhile (\<lambda>x. x \<noteq> c) s"
    by (metis takeWhile_eq_take)
  moreover have "drop (Suc (length (takeWhile (\<lambda>x. x \<noteq> c) s))) s
      = tl (dropWhile (\<lambda>x. x \<noteq> c) s)"
    by (metis dropWhile_eq_drop drop_Suc tl_drop)
  ultimately show ?thesis using True
    by (simp add: strings_Cut_def strings_Index_byte)
next
  case False
  then have tw: "takeWhile (\<lambda>x. x \<noteq> c) s = s"
    and dw: "dropWhile (\<lambda>x. x \<noteq> c) s = []"
    by auto
  have "strings_Cut s [c] = (s, [], False)"
    using False by (simp add: strings_Cut_def strings_Index_byte)
  then show ?thesis
    unfolding tw dw using False by simp
qed

lemma go_rem_2_eq_1: "(go_rem k 2 = 1) = (0 < k \<and> odd k)"
proof (cases "0 < k")
  case True
  then show ?thesis by (simp add: go_rem_def odd_iff_mod_2_eq_one)
next
  case False
  then have "sgn k * (\<bar>k\<bar> mod 2) \<le> 0"
    by (simp add: mult_le_0_iff sgn_if)
  with False show ?thesis by (simp add: go_rem_def)
qed

lemma of_char_asciiLower:
  "(of_char (asciiLower c) :: nat)
     = (if 65 \<le> (of_char c :: nat) \<and> (of_char c :: nat) \<le> 90 then of_char c + 32 else of_char c)"
  by (simp add: asciiLower_def)

lemma asciiLower_eq_iff:
  assumes "a \<noteq> b"
  shows "(asciiLower a = asciiLower b)
     = (65 \<le> min (of_char a) (of_char b :: nat) \<and> min (of_char a) (of_char b :: nat) \<le> 90
        \<and> max (of_char a) (of_char b :: nat) = min (of_char a) (of_char b) + 97 - 65)"
proof -
  have ne: "(of_char a :: nat) \<noteq> of_char b"
    using assms by simp
  have "(asciiLower a = asciiLower b)
      = ((of_char (asciiLower a) :: nat) = of_char (asciiLower b))"
    by simp
  also have "\<dots> = (65 \<le> min (of_char a) (of_char b :: nat)
        \<and> min (of_char a) (of_char b :: nat) \<le> 90
        \<and> max (of_char a) (of_char b :: nat) = min (of_char a) (of_char b) + 97 - 65)"
    unfolding of_char_asciiLower using ne by (auto simp: min_def max_def)
  finally show ?thesis .
qed

lemma strings_EqualFold_ascii:
  "\<forall>c\<in>set s. (of_char c :: nat) < 128 \<Longrightarrow> \<forall>c\<in>set t. (of_char c :: nat) < 128 \<Longrightarrow>
     strings_EqualFold h s t = (map asciiLower s = map asciiLower t)"
proof (induction h s t rule: strings_EqualFold.induct)
  case (1 h sr s tr t)
  from "1.prems" have ascii: "\<not> ((128::nat) \<le> of_char sr \<or> (128::nat) \<le> of_char tr)"
    by auto
  show ?case
  proof (cases "tr = sr")
    case True
    with ascii "1.IH"(1) "1.prems" show ?thesis by simp
  next
    case False
    then have ne: "sr \<noteq> tr" by simp
    let ?fold = "65 \<le> min (of_char sr) (of_char tr :: nat)
          \<and> min (of_char sr) (of_char tr :: nat) \<le> 90
          \<and> max (of_char sr) (of_char tr :: nat) = min (of_char sr) (of_char tr) + 97 - 65"
    have step: "strings_EqualFold h (sr # s) (tr # t)
        = (if ?fold then strings_EqualFold h s t else False)"
      using ascii False by (simp add: Let_def)
    have heads: "(asciiLower sr = asciiLower tr) = ?fold"
      by (rule asciiLower_eq_iff [OF ne])
    show ?thesis
    proof (cases ?fold)
      case True
      have "strings_EqualFold h s t = (map asciiLower s = map asciiLower t)"
        using "1.IH"(2) [OF ascii False refl refl True] "1.prems" by simp
      moreover from step True
      have "strings_EqualFold h (sr # s) (tr # t) = strings_EqualFold h s t"
        by (simp only: if_True simp_thms)
      moreover from heads True have "asciiLower sr = asciiLower tr"
        by (simp only: simp_thms)
      ultimately show ?thesis
        by (simp del: strings_EqualFold.simps)
    next
      case unfold: False
      with step have "\<not> strings_EqualFold h (sr # s) (tr # t)"
        by (simp only: if_False simp_thms)
      moreover from heads unfold have "asciiLower sr \<noteq> asciiLower tr"
        by (simp only: simp_thms)
      ultimately show ?thesis
        by (simp del: strings_EqualFold.simps)
    qed
  qed
qed auto

lemma filepath_Base_on_empty: "filepath_Base_on isSep volLen sep [] = ''.''"
  by (simp add: filepath_Base_on_def)

lemma lower_names:
  "map asciiLower ''tailscale-ipn.exe'' = ''tailscale-ipn.exe''"
  "map asciiLower ''tailscale-ipn'' = ''tailscale-ipn''"
  "\<forall>c\<in>set ''tailscale-ipn.exe''. (of_char c :: nat) < 128"
  "\<forall>c\<in>set ''tailscale-ipn''. (of_char c :: nat) < 128"
  by (simp_all add: asciiLower_def)

lemma last_element_of_stripped:
  assumes "name \<noteq> []" and "\<forall>c\<in>set name. \<not> isSep c"
  shows "(lastElement isSep (stripTrailing isSep p) = name)
     = (\<exists>dir seps. p = dir @ name @ seps \<and> (\<forall>c\<in>set seps. isSep c)
          \<and> (dir = [] \<or> isSep (last dir)))"
proof
  assume eq: "lastElement isSep (stripTrailing isSep p) = name"
  let ?r = "rev p"
  let ?d = "dropWhile isSep ?r"
  let ?rest = "dropWhile (\<lambda>c. \<not> isSep c) ?d"
  have "rev (takeWhile (\<lambda>c. \<not> isSep c) ?d) = name"
    using eq by (simp add: lastElement_def stripTrailing_def)
  then have "rev (rev (takeWhile (\<lambda>c. \<not> isSep c) ?d)) = rev name"
    by (simp only:)
  then have tk: "takeWhile (\<lambda>c. \<not> isSep c) ?d = rev name"
    by (simp only: rev_rev_ident)
  have "takeWhile (\<lambda>c. \<not> isSep c) ?d @ ?rest = ?d"
    by (rule takeWhile_dropWhile_id)
  then have d: "rev name @ ?rest = ?d"
    by (simp only: tk)
  have "takeWhile isSep ?r @ ?d = ?r"
    by (rule takeWhile_dropWhile_id)
  then have "takeWhile isSep ?r @ rev name @ ?rest = ?r"
    by (simp only: d)
  then have "rev (takeWhile isSep ?r @ rev name @ ?rest) = rev ?r"
    by (simp only:)
  then have p: "p = rev ?rest @ name @ rev (takeWhile isSep ?r)"
    by simp
  have seps: "\<forall>c\<in>set (rev (takeWhile isSep ?r)). isSep c"
    by (auto dest: set_takeWhileD)
  have dir: "rev ?rest = [] \<or> isSep (last (rev ?rest))"
  proof (cases ?rest)
    case Nil
    then show ?thesis by simp
  next
    case (Cons x xs)
    have "?rest \<noteq> []"
      using Cons by simp
    then have "\<not> \<not> isSep (hd ?rest)"
      by (rule hd_dropWhile)
    with Cons show ?thesis
      by (simp add: last_rev)
  qed
  from p seps dir show "\<exists>dir seps. p = dir @ name @ seps \<and> (\<forall>c\<in>set seps. isSep c)
      \<and> (dir = [] \<or> isSep (last dir))"
    by blast
next
  assume "\<exists>dir seps. p = dir @ name @ seps \<and> (\<forall>c\<in>set seps. isSep c)
      \<and> (dir = [] \<or> isSep (last dir))"
  then obtain dir seps where p: "p = dir @ name @ seps"
    and seps: "\<forall>c\<in>set seps. isSep c" and dir: "dir = [] \<or> isSep (last dir)"
    by blast
  have r: "rev p = rev seps @ rev name @ rev dir"
    using p by simp
  have "rev name \<noteq> []"
    using assms(1) by simp
  then obtain y ys where rn: "rev name = y # ys"
    by (cases "rev name") simp_all
  then have "y \<in> set name"
    by (metis list.set_intros(1) set_rev)
  with assms(2) have "\<not> isSep y"
    by simp
  then have "dropWhile isSep (y # ys @ rev dir) = y # ys @ rev dir"
    by simp
  moreover have "dropWhile isSep (rev seps @ y # ys @ rev dir)
      = dropWhile isSep (y # ys @ rev dir)"
    by (rule dropWhile_append2) (use seps in simp)
  ultimately have d: "dropWhile isSep (rev p) = rev name @ rev dir"
    unfolding r rn by simp
  have nosep: "\<forall>c\<in>set (rev name). \<not> isSep c"
    using assms(2) by simp
  have "takeWhile (\<lambda>c. \<not> isSep c) (rev name @ rev dir) = rev name"
  proof (cases dir rule: rev_cases)
    case Nil
    with nosep show ?thesis by simp
  next
    case (snoc zs z)
    with dir have "isSep z" by simp
    then have "takeWhile (\<lambda>c. \<not> isSep c) (z # rev zs) = []"
      by simp
    moreover have "takeWhile (\<lambda>c. \<not> isSep c) (rev name @ z # rev zs)
        = rev name @ takeWhile (\<lambda>c. \<not> isSep c) (z # rev zs)"
      by (rule takeWhile_append2) (use nosep in simp)
    ultimately show ?thesis
      using snoc by simp
  qed
  with d show "lastElement isSep (stripTrailing isSep p) = name"
    by (simp add: lastElement_def stripTrailing_def)
qed

lemma filepath_Base_eq_iff:
  assumes "name \<noteq> []" and "CHR ''/'' \<notin> set name" and "name \<noteq> ''.''"
  shows "(filepath_Base p = name)
     = (\<exists>dir k. p = dir @ name @ replicate k (CHR ''/'')
          \<and> (dir = [] \<or> last dir = CHR ''/''))"
proof (cases "p = []")
  case True
  with assms show ?thesis
    by (simp add: filepath_Base_def filepath_Base_on_def)
next
  case False
  have nosep: "\<forall>c\<in>set name. \<not> c = CHR ''/''"
    using assms(2) by auto
  have "name \<noteq> [CHR ''/'']"
    using assms(2) by auto
  then have "(filepath_Base p = name)
      = (lastElement (\<lambda>c. c = CHR ''/'') (stripTrailing (\<lambda>c. c = CHR ''/'') p) = name)"
    using False assms(1) by (auto simp: filepath_Base_def filepath_Base_on_def Let_def)
  also have "\<dots> = (\<exists>dir seps. p = dir @ name @ seps \<and> (\<forall>c\<in>set seps. c = CHR ''/'')
      \<and> (dir = [] \<or> last dir = CHR ''/''))"
    by (rule last_element_of_stripped [OF assms(1) nosep])
  also have "\<dots> = (\<exists>dir k. p = dir @ name @ replicate k (CHR ''/'')
      \<and> (dir = [] \<or> last dir = CHR ''/''))"
  proof
    assume "\<exists>dir seps. p = dir @ name @ seps \<and> (\<forall>c\<in>set seps. c = CHR ''/'')
      \<and> (dir = [] \<or> last dir = CHR ''/'')"
    then obtain dir seps where p: "p = dir @ name @ seps"
      and seps: "\<forall>c\<in>set seps. c = CHR ''/''" and dir: "dir = [] \<or> last dir = CHR ''/''"
      by blast
    from seps have "replicate (length seps) (CHR ''/'') = seps"
      by (simp add: replicate_length_same)
    with p have "p = dir @ name @ replicate (length seps) (CHR ''/'')" by simp
    with dir show "\<exists>dir k. p = dir @ name @ replicate k (CHR ''/'')
        \<and> (dir = [] \<or> last dir = CHR ''/'')"
      by blast
  next
    assume "\<exists>dir k. p = dir @ name @ replicate k (CHR ''/'')
        \<and> (dir = [] \<or> last dir = CHR ''/'')"
    then obtain dir k where "p = dir @ name @ replicate k (CHR ''/'')"
      and "dir = [] \<or> last dir = CHR ''/''"
      by blast
    moreover have "\<forall>c\<in>set (replicate k (CHR ''/'')). c = CHR ''/''" by simp
    ultimately show "\<exists>dir seps. p = dir @ name @ seps \<and> (\<forall>c\<in>set seps. c = CHR ''/'')
        \<and> (dir = [] \<or> last dir = CHR ''/'')"
      by blast
  qed
  finally show ?thesis .
qed

subsection \<open>The invariant of the cached variables\<close>

lemma initMacFlavor_fields:
  "isMacSysExt (initMacFlavor e s)
     = (case os_Executable_result e of None \<Rightarrow> isMacSysExt s | Some exe \<Rightarrow> fst (macFlavor_of e))"
  "isMacSandboxed (initMacFlavor e s)
     = (case os_Executable_result e of None \<Rightarrow> isMacSandboxed s | Some exe \<Rightarrow> snd (macFlavor_of e))"
  "macFlavorOnce (initMacFlavor e s) = macFlavorOnce s"
  "isUnstableOnce (initMacFlavor e s) = isUnstableOnce s"
  "isUnstableBuild (initMacFlavor e s) = isUnstableBuild s"
  by (simp_all add: initMacFlavor_def os_Executable_def macFlavor_of_def Let_def
      split: option.splits)

lemma initUnstable_fields:
  "isMacSysExt (initUnstable e s) = isMacSysExt s"
  "isMacSandboxed (initUnstable e s) = isMacSandboxed s"
  "macFlavorOnce (initUnstable e s) = macFlavorOnce s"
  "isUnstableOnce (initUnstable e s) = isUnstableOnce s"
  "executableCalls (initUnstable e s) = executableCalls s"
  by (simp_all add: initUnstable_def split: prod.splits option.splits)

lemma initUnstable_flag:
  "\<not> isUnstableBuild s \<Longrightarrow> isUnstableBuild (initUnstable e s) = unstable_of e"
  by (simp add: unstable_of_def initUnstable_def init_state_def split: prod.splits option.splits)

lemma caches_ok_init: "caches_ok e init_state"
  by (simp add: caches_ok_def init_state_def)

lemma macFlavorOnce_Do_ok:
  "caches_ok e s \<Longrightarrow> caches_ok e (macFlavorOnce_Do (initMacFlavor e) s)"
  by (auto simp: caches_ok_def macFlavorOnce_Do_def initMacFlavor_fields macFlavor_of_def
      split: option.splits)

lemma isUnstableOnce_Do_ok:
  "caches_ok e s \<Longrightarrow> caches_ok e (isUnstableOnce_Do (initUnstable e) s)"
  by (auto simp: caches_ok_def isUnstableOnce_Do_def initUnstable_fields initUnstable_flag)

lemma os_Executable_ok: "caches_ok e (snd (os_Executable e s)) = caches_ok e s"
  by (simp add: caches_ok_def os_Executable_def)

lemma call_ok: "caches_ok e s \<Longrightarrow> caches_ok e (snd (call e a s))"
  by (cases a)
    (simp_all add: IsSandboxedMacOS_def IsMacSysExt_def IsWindowsGUI_def IsUnstableBuild_def
      GetMeta_def Let_def case_prod_beta macFlavorOnce_Do_ok isUnstableOnce_Do_ok
      os_Executable_ok)

lemma run_ok: "caches_ok e s \<Longrightarrow> caches_ok e (run e cs s)"
  by (induction cs arbitrary: s) (simp_all add: call_ok)

lemma run_append: "run e (cs @ cs') s = run e cs' (run e cs s)"
  by (induction cs arbitrary: s) simp_all

text \<open>Under the invariant the two memoized readers return what the initializer computes
  from the environment, whether or not it has already run.\<close>

lemma mac_results:
  "caches_ok e s \<Longrightarrow> runtime_GOOS e = ''darwin'' \<Longrightarrow>
     fst (IsMacSysExt e s) = fst (macFlavor_of e)
     \<and> fst (IsSandboxedMacOS e s) = snd (macFlavor_of e)"
  by (auto simp: IsMacSysExt_def IsSandboxedMacOS_def Let_def caches_ok_def
      macFlavorOnce_Do_def initMacFlavor_fields macFlavor_of_def split: option.splits)

lemma unstable_result:
  "caches_ok e s \<Longrightarrow> fst (IsUnstableBuild e s) = unstable_of e"
  by (auto simp: IsUnstableBuild_def Let_def caches_ok_def isUnstableOnce_Do_def
      initUnstable_flag)

lemma IsWindowsGUI_result: "fst (IsWindowsGUI e s) = fst (IsWindowsGUI e s')"
  by (simp add: IsWindowsGUI_def os_Executable_def Let_def split: option.splits)

lemma call_result:
  assumes "caches_ok e s" and "caches_ok e s'"
  shows "fst (call e a s) = fst (call e a s')"
proof (cases a)
  case Call_IsSandboxedMacOS
  show ?thesis
  proof (cases "runtime_GOOS e = ''darwin''")
    case True
    with assms Call_IsSandboxedMacOS show ?thesis
      by (simp add: mac_results case_prod_beta)
  next
    case False
    with Call_IsSandboxedMacOS show ?thesis by (simp add: IsSandboxedMacOS_def)
  qed
next
  case Call_IsMacSysExt
  show ?thesis
  proof (cases "runtime_GOOS e = ''darwin''")
    case True
    with assms Call_IsMacSysExt show ?thesis
      by (simp add: mac_results case_prod_beta)
  next
    case False
    with Call_IsMacSysExt show ?thesis by (simp add: IsMacSysExt_def)
  qed
next
  case Call_IsWindowsGUI
  then show ?thesis
    using IsWindowsGUI_result [of e s s'] by (simp add: case_prod_beta)
next
  case Call_IsUnstableBuild
  with assms show ?thesis
    using unstable_result [of e s] unstable_result [of e s'] by (simp add: case_prod_beta)
next
  case Call_GetMeta
  with assms show ?thesis
    using unstable_result [of e s] unstable_result [of e s']
    by (simp add: GetMeta_def case_prod_beta)
qed simp_all

text \<open>Once a \<^verbatim>\<open>sync.Once\<close> is done, no accessor writes the variables it guards.\<close>

lemma call_keeps_mac:
  "macFlavorOnce s \<Longrightarrow>
     macFlavorOnce (snd (call e a s))
     \<and> isMacSysExt (snd (call e a s)) = isMacSysExt s
     \<and> isMacSandboxed (snd (call e a s)) = isMacSandboxed s"
  by (cases a)
    (simp_all add: IsSandboxedMacOS_def IsMacSysExt_def IsWindowsGUI_def IsUnstableBuild_def
      GetMeta_def os_Executable_def Let_def macFlavorOnce_Do_def isUnstableOnce_Do_def
      initUnstable_fields case_prod_beta)

lemma call_keeps_unstable:
  "isUnstableOnce s \<Longrightarrow>
     isUnstableOnce (snd (call e a s))
     \<and> isUnstableBuild (snd (call e a s)) = isUnstableBuild s"
  by (cases a)
    (simp_all add: IsSandboxedMacOS_def IsMacSysExt_def IsWindowsGUI_def IsUnstableBuild_def
      GetMeta_def os_Executable_def Let_def macFlavorOnce_Do_def isUnstableOnce_Do_def
      initMacFlavor_fields case_prod_beta)

lemma run_keeps_mac:
  "macFlavorOnce s \<Longrightarrow>
     macFlavorOnce (run e cs s)
     \<and> isMacSysExt (run e cs s) = isMacSysExt s
     \<and> isMacSandboxed (run e cs s) = isMacSandboxed s"
proof (induction cs arbitrary: s)
  case Nil
  then show ?case by simp
next
  case (Cons a cs)
  from call_keeps_mac [OF Cons.prems, of e a] Cons.IH [of "snd (call e a s)"]
  show ?case by simp
qed

lemma run_keeps_unstable:
  "isUnstableOnce s \<Longrightarrow>
     isUnstableOnce (run e cs s)
     \<and> isUnstableBuild (run e cs s) = isUnstableBuild s"
proof (induction cs arbitrary: s)
  case Nil
  then show ?case by simp
next
  case (Cons a cs)
  from call_keeps_unstable [OF Cons.prems, of e a] Cons.IH [of "snd (call e a s)"]
  show ?case by simp
qed

lemma IsWindowsGUI_name:
  "runtime_GOOS e = ''windows'' \<Longrightarrow>
     fst (IsWindowsGUI e s)
       = (strings_EqualFold (strings_hasUnicode e) (windowsExeName e) ''tailscale-ipn.exe''
          \<or> strings_EqualFold (strings_hasUnicode e) (windowsExeName e) ''tailscale-ipn'')"
  by (simp add: IsWindowsGUI_def os_Executable_def windowsExeName_def Let_def
      split: option.splits)

lemma unstable_of_eq:
  "unstable_of e =
     (case minorField (version_Short e) of
        None \<Rightarrow> False
      | Some minorStr \<Rightarrow>
          (case strconv_Atoi (strconv_IntSize e) minorStr of
             None \<Rightarrow> False
           | Some minor \<Rightarrow> 0 < minor \<and> odd minor))"
  by (simp add: unstable_of_def initUnstable_def strings_Cut_byte minorField_def Let_def
      init_state_def go_rem_2_eq_1 split: option.splits)

lemma windows_env_name: "windowsExeName windows_env = ''Tailscale-IPN.EXE''"
  by (simp add: windows_env_def example_env_def windowsExeName_def filepath_Base_windows_def
      filepath_Base_on_def stripTrailing_def lastElement_def)

subsection \<open>The claims\<close>

text \<open>
  C10. \<^verbatim>\<open>IsMobile\<close> (isMobileBuild) returns true iff the platform identifier is
  \<^verbatim>\<open>"android"\<close> or \<^verbatim>\<open>"ios"\<close>; it is false for every other identifier, among them
  \<^verbatim>\<open>"darwin"\<close> and \<^verbatim>\<open>"windows"\<close>.
\<close>

theorem IsMobile_android_or_ios:
  "IsMobile e = (runtime_GOOS e = ''android'' \<or> runtime_GOOS e = ''ios'')
   \<and> \<not> IsMobile (e\<lparr>runtime_GOOS := ''darwin''\<rparr>)
   \<and> \<not> IsMobile (e\<lparr>runtime_GOOS := ''windows''\<rparr>)"
  by (simp add: IsMobile_def)

text \<open>
  C4. \<^verbatim>\<open>OS\<close> (osDisplayName) returns \<^verbatim>\<open>"iOS"\<close> for the identifier \<^verbatim>\<open>"ios"\<close>,
  \<^verbatim>\<open>"macOS"\<close> for \<^verbatim>\<open>"darwin"\<close>, and every other identifier unchanged.
\<close>

theorem OS_display_name:
  "(runtime_GOOS e = ''ios'' \<longrightarrow> OS e = ''iOS'')
   \<and> (runtime_GOOS e = ''darwin'' \<longrightarrow> OS e = ''macOS'')
   \<and> (runtime_GOOS e \<noteq> ''ios'' \<and> runtime_GOOS e \<noteq> ''darwin'' \<longrightarrow> OS e = runtime_GOOS e)"
  by (simp add: OS_def)

theorem OS_display_name_witness:
  "OS (example_env\<lparr>runtime_GOOS := ''ios''\<rparr>) = ''iOS''
   \<and> OS (example_env\<lparr>runtime_GOOS := ''darwin''\<rparr>) = ''macOS''
   \<and> OS example_env = ''linux''"
proof -
  have ios: "runtime_GOOS (example_env\<lparr>runtime_GOOS := ''ios''\<rparr>) = ''ios''"
    by simp
  have darwin: "runtime_GOOS (example_env\<lparr>runtime_GOOS := ''darwin''\<rparr>) = ''darwin''"
    by simp
  have linux: "runtime_GOOS example_env = ''linux''"
    by (simp add: example_env_def)
  from OS_display_name [of "example_env\<lparr>runtime_GOOS := ''ios''\<rparr>"] ios
  have 1: "OS (example_env\<lparr>runtime_GOOS := ''ios''\<rparr>) = ''iOS''" by blast
  from OS_display_name [of "example_env\<lparr>runtime_GOOS := ''darwin''\<rparr>"] darwin
  have 2: "OS (example_env\<lparr>runtime_GOOS := ''darwin''\<rparr>) = ''macOS''" by blast
  from OS_display_name [of example_env] linux
  have 3: "OS example_env = ''linux''" by simp
  from 1 2 3 show ?thesis by simp
qed

text \<open>
  C7. Off macOS, \<^verbatim>\<open>IsSandboxedMacOS\<close> and \<^verbatim>\<open>IsMacSysExt\<close> return false whatever
  the executable path is (here: whatever \<open>r\<close> the path resolution would give), and
  no path resolution occurs: the package variables and the count of
  \<^verbatim>\<open>os.Executable\<close> calls are as before the call.
\<close>

theorem mac_predicates_off_darwin:
  "runtime_GOOS e \<noteq> ''darwin'' \<Longrightarrow>
     IsSandboxedMacOS (e\<lparr>os_Executable_result := r\<rparr>) s = (False, s)
     \<and> IsMacSysExt (e\<lparr>os_Executable_result := r\<rparr>) s = (False, s)
     \<and> executableCalls (snd (IsSandboxedMacOS e s)) = executableCalls s
     \<and> executableCalls (snd (IsMacSysExt e s)) = executableCalls s"
  by (simp add: IsSandboxedMacOS_def IsMacSysExt_def)

theorem mac_predicates_off_darwin_witness:
  "runtime_GOOS example_env = ''linux''
   \<and> IsSandboxedMacOS
      (example_env\<lparr>os_Executable_result := Some ''/Applications/Tailscale.app/Contents/MacOS/Tailscale''\<rparr>)
      init_state = (False, init_state)
   \<and> IsMacSysExt
      (example_env\<lparr>os_Executable_result := Some ''/x/io.tailscale.ipn.macsys.network-extension''\<rparr>)
      init_state = (False, init_state)"
proof -
  have linux: "runtime_GOOS example_env \<noteq> ''darwin''"
    by (simp add: example_env_def)
  have "runtime_GOOS example_env = ''linux''"
    by (simp add: example_env_def)
  with mac_predicates_off_darwin [OF linux] show ?thesis by simp
qed

text \<open>
  C5. \<^verbatim>\<open>GetMeta\<close> (buildMetadataSnapshot) is total, it has no error result, and the
  record it returns has: the string and boolean provenance fields equal to the
  externally supplied variables, \<^verbatim>\<open>UnstableBranch\<close> equal to the result of
  \<^verbatim>\<open>IsUnstableBuild\<close>, \<^verbatim>\<open>Cap\<close> equal to the capability version, and
  \<^verbatim>\<open>DaemonLong\<close>, which the function never sets, empty.
\<close>

theorem GetMeta_fields:
  "MajorMinorPatch (fst (GetMeta e s)) = version_majorMinorPatch e
   \<and> Short (fst (GetMeta e s)) = version_Short e
   \<and> Long (fst (GetMeta e s)) = version_Long e
   \<and> GitCommit (fst (GetMeta e s)) = version_GitCommit e
   \<and> GitDirty (fst (GetMeta e s)) = version_GitDirty e
   \<and> ExtraGitCommit (fst (GetMeta e s)) = version_ExtraGitCommit e
   \<and> IsDev (fst (GetMeta e s)) = strings_Contains (version_Short e) ''-dev''
   \<and> UnstableBranch (fst (GetMeta e s)) = fst (IsUnstableBuild e s)
   \<and> Cap (fst (GetMeta e s)) = tailcfg_CurrentCapabilityVersion e
   \<and> DaemonLong (fst (GetMeta e s)) = []
   \<and> snd (GetMeta e s) = snd (IsUnstableBuild e s)"
  by (simp add: GetMeta_def split: prod.splits)

text \<open>
  C6. For every short-version string, \<^verbatim>\<open>GetMeta().IsDev\<close> is true iff the string
  contains \<^verbatim>\<open>"-dev"\<close> somewhere; \<^verbatim>\<open>"1.2.0-dev"\<close> gives true and \<^verbatim>\<open>"1.2.0"\<close>
  gives false.
\<close>

theorem GetMeta_IsDev:
  "IsDev (fst (GetMeta e s)) = (\<exists>pre post. version_Short e = pre @ ''-dev'' @ post)
   \<and> IsDev (fst (GetMeta (e\<lparr>version_Short := ''1.2.0-dev''\<rparr>) s))
   \<and> \<not> IsDev (fst (GetMeta (e\<lparr>version_Short := ''1.2.0''\<rparr>) s))"
proof -
  have "IsDev (fst (GetMeta e' s)) = strings_Contains (version_Short e') ''-dev''" for e'
    by (simp add: GetMeta_def split: prod.splits)
  moreover have "strings_Contains ''1.2.0-dev'' ''-dev''"
    by (simp add: strings_Contains_def strings_HasPrefix_def)
  moreover have "\<not> strings_Contains ''1.2.0'' ''-dev''"
    by (simp add: strings_Contains_def strings_HasPrefix_def)
  ultimately show ?thesis
    by (simp add: strings_Contains_iff)
qed

text \<open>
  C8. Within one process (environment fixed) every public accessor is deterministic:
  whatever calls came before, two calls of the same accessor return the same result; and
  once a \<^verbatim>\<open>sync.Once\<close> is done, the variables it guards keep their values through
  every later call.
\<close>

theorem accessors_deterministic:
  "fst (call e a (run e cs init_state)) = fst (call e a (run e cs' init_state))
   \<and> (macFlavorOnce (run e cs init_state) \<longrightarrow>
        macFlavorOnce (run e (cs @ cs') init_state)
        \<and> isMacSysExt (run e (cs @ cs') init_state) = isMacSysExt (run e cs init_state)
        \<and> isMacSandboxed (run e (cs @ cs') init_state) = isMacSandboxed (run e cs init_state))
   \<and> (isUnstableOnce (run e cs init_state) \<longrightarrow>
        isUnstableOnce (run e (cs @ cs') init_state)
        \<and> isUnstableBuild (run e (cs @ cs') init_state) = isUnstableBuild (run e cs init_state))"
proof -
  have "caches_ok e (run e cs init_state)" "caches_ok e (run e cs' init_state)"
    by (simp_all add: run_ok caches_ok_init)
  then have "fst (call e a (run e cs init_state)) = fst (call e a (run e cs' init_state))"
    by (rule call_result)
  then show ?thesis
    using run_keeps_mac [of "run e cs init_state" e cs']
      run_keeps_unstable [of "run e cs init_state" e cs']
    by (simp add: run_append)
qed

theorem accessors_deterministic_witness:
  "macFlavorOnce (run macsys_env [Call_IsMacSysExt, Call_GetMeta] init_state)
   \<and> isUnstableOnce (run macsys_env [Call_IsMacSysExt, Call_GetMeta] init_state)
   \<and> isMacSysExt (run macsys_env ([Call_IsMacSysExt, Call_GetMeta] @ [Call_IsSandboxedMacOS]) init_state)
       = isMacSysExt (run macsys_env [Call_IsMacSysExt, Call_GetMeta] init_state)
   \<and> isUnstableBuild (run macsys_env ([Call_IsMacSysExt, Call_GetMeta] @ [Call_IsSandboxedMacOS]) init_state)
       = isUnstableBuild (run macsys_env [Call_IsMacSysExt, Call_GetMeta] init_state)
   \<and> fst (call macsys_env Call_IsUnstableBuild (run macsys_env [Call_IsMacSysExt, Call_GetMeta] init_state))
       = fst (call macsys_env Call_IsUnstableBuild (run macsys_env [Call_IsSandboxedMacOS] init_state))"
proof -
  have mac: "macFlavorOnce (run macsys_env [Call_IsMacSysExt, Call_GetMeta] init_state)"
    by (simp add: macsys_env_def example_env_def init_state_def IsMacSysExt_def GetMeta_def
        IsUnstableBuild_def macFlavorOnce_Do_def isUnstableOnce_Do_def initMacFlavor_fields
        initUnstable_fields case_prod_beta)
  have unst: "isUnstableOnce (run macsys_env [Call_IsMacSysExt, Call_GetMeta] init_state)"
    by (simp add: macsys_env_def example_env_def init_state_def IsMacSysExt_def GetMeta_def
        IsUnstableBuild_def macFlavorOnce_Do_def isUnstableOnce_Do_def initMacFlavor_fields
        initUnstable_fields case_prod_beta)
  from accessors_deterministic [of macsys_env Call_IsUnstableBuild
      "[Call_IsMacSysExt, Call_GetMeta]" "[Call_IsSandboxedMacOS]"] mac unst
  show ?thesis by blast
qed

text \<open>
  C2. On macOS, for every resolved executable path and at every point of a process:
  \<^verbatim>\<open>IsMacSysExt\<close> is true iff the base name of the path equals
  \<^verbatim>\<open>io.tailscale.ipn.macsys.network-extension\<close>; \<^verbatim>\<open>IsSandboxedMacOS\<close> is true iff
  \<^verbatim>\<open>IsMacSysExt\<close> is true or the path ends with \<^verbatim>\<open>/Contents/MacOS/Tailscale\<close> or
  with \<^verbatim>\<open>/Contents/MacOS/IPNExtension\<close>; so the first implies the second.
\<close>

theorem mac_flavor_rules:
  assumes "runtime_GOOS e = ''darwin''" and "os_Executable_result e = Some exe"
  shows "fst (IsMacSysExt e (run e cs init_state))
           = (filepath_Base exe = ''io.tailscale.ipn.macsys.network-extension'')
         \<and> fst (IsMacSysExt e (run e cs init_state))
           = (\<exists>dir k. exe = dir @ ''io.tailscale.ipn.macsys.network-extension''
                               @ replicate k (CHR ''/'')
                \<and> (dir = [] \<or> last dir = CHR ''/''))
         \<and> fst (IsSandboxedMacOS e (run e cs init_state))
           = (fst (IsMacSysExt e (run e cs init_state))
              \<or> (\<exists>dir. exe = dir @ ''/Contents/MacOS/Tailscale'')
              \<or> (\<exists>dir. exe = dir @ ''/Contents/MacOS/IPNExtension''))
         \<and> (fst (IsMacSysExt e (run e cs init_state))
              \<longrightarrow> fst (IsSandboxedMacOS e (run e cs init_state)))"
proof -
  have "caches_ok e (run e cs init_state)"
    by (simp add: run_ok caches_ok_init)
  from mac_results [OF this assms(1)] assms(2)
  have sysext: "fst (IsMacSysExt e (run e cs init_state))
      = (filepath_Base exe = ''io.tailscale.ipn.macsys.network-extension'')"
    and sandboxed: "fst (IsSandboxedMacOS e (run e cs init_state))
      = (fst (IsMacSysExt e (run e cs init_state))
         \<or> (\<exists>dir. exe = dir @ ''/Contents/MacOS/Tailscale'')
         \<or> (\<exists>dir. exe = dir @ ''/Contents/MacOS/IPNExtension''))"
    by (simp_all add: macFlavor_of_def Let_def strings_HasSuffix_iff)
  have shape: "(filepath_Base exe = ''io.tailscale.ipn.macsys.network-extension'')
      = (\<exists>dir k. exe = dir @ ''io.tailscale.ipn.macsys.network-extension''
                          @ replicate k (CHR ''/'')
           \<and> (dir = [] \<or> last dir = CHR ''/''))"
    by (rule filepath_Base_eq_iff) simp_all
  from sysext have "fst (IsMacSysExt e (run e cs init_state))
      = (\<exists>dir k. exe = dir @ ''io.tailscale.ipn.macsys.network-extension''
                          @ replicate k (CHR ''/'')
           \<and> (dir = [] \<or> last dir = CHR ''/''))"
    by (simp only: shape)
  moreover from sandboxed have "fst (IsMacSysExt e (run e cs init_state))
      \<longrightarrow> fst (IsSandboxedMacOS e (run e cs init_state))"
    by blast
  ultimately show ?thesis
    using sysext sandboxed by (intro conjI)
qed

theorem mac_flavor_rules_witness:
  "runtime_GOOS macsys_env = ''darwin''
   \<and> os_Executable_result macsys_env
       = Some ''/Library/SystemExtensions/A1/io.tailscale.ipn.macsys.network-extension''
   \<and> fst (IsMacSysExt macsys_env (run macsys_env [Call_IsSandboxedMacOS] init_state))
   \<and> fst (IsSandboxedMacOS macsys_env (run macsys_env [Call_IsSandboxedMacOS] init_state))"
proof -
  have os: "runtime_GOOS macsys_env = ''darwin''"
    by (simp add: macsys_env_def)
  have exe: "os_Executable_result macsys_env
      = Some ''/Library/SystemExtensions/A1/io.tailscale.ipn.macsys.network-extension''"
    by (simp add: macsys_env_def)
  have base: "filepath_Base ''/Library/SystemExtensions/A1/io.tailscale.ipn.macsys.network-extension''
      = ''io.tailscale.ipn.macsys.network-extension''"
    by (simp add: filepath_Base_def filepath_Base_on_def stripTrailing_def lastElement_def)
  from mac_flavor_rules [OF os exe, of "[Call_IsSandboxedMacOS]"] base os exe
  show ?thesis by simp
qed


text \<open>
  C3 says that when path resolution fails the name that is compared is empty. It is not:
  on Windows, with resolution failing, \<^verbatim>\<open>os.Executable\<close> gives the empty path and
  \<^verbatim>\<open>filepath.Base\<close> turns it into \<^verbatim>\<open>"."\<close>.
\<close>

theorem IsWindowsGUI_failure_name_counterexample:
  "runtime_GOOS failing_windows_env = ''windows''
   \<and> os_Executable_result failing_windows_env = None
   \<and> fst (fst (os_Executable failing_windows_env init_state)) = []
   \<and> filepath_Base_windows (filepath_volumeNameLen failing_windows_env)
        (fst (fst (os_Executable failing_windows_env init_state))) = ''.''
   \<and> windowsExeName failing_windows_env \<noteq> []"
  by (simp add: failing_windows_env_def example_env_def os_Executable_def windowsExeName_def
      filepath_Base_windows_def filepath_Base_on_def)

text \<open>
  C3, with the compared name on failure as the code has it. Off Windows
  \<^verbatim>\<open>IsWindowsGUI\<close> returns false and resolves nothing. On Windows it resolves the
  path on every call and returns true iff the base name of the path is equal under \<^verbatim>\<open>strings.EqualFold\<close> to \<^verbatim>\<open>tailscale-ipn.exe\<close> or to
  \<^verbatim>\<open>tailscale-ipn\<close>; for a name of ASCII bytes that is: iff the name, lower-cased, is
  one of the two. When path resolution fails the path is empty, its base name is
  \<^verbatim>\<open>"."\<close>, which matches neither, and the function returns false.
\<close>

theorem IsWindowsGUI_rules:
  "(runtime_GOOS e \<noteq> ''windows'' \<longrightarrow> IsWindowsGUI e s = (False, s))
   \<and> (runtime_GOOS e = ''windows'' \<longrightarrow>
        fst (IsWindowsGUI e s)
          = (strings_EqualFold (strings_hasUnicode e) (windowsExeName e) ''tailscale-ipn.exe''
             \<or> strings_EqualFold (strings_hasUnicode e) (windowsExeName e) ''tailscale-ipn'')
        \<and> executableCalls (snd (IsWindowsGUI e s)) = Suc (executableCalls s))
   \<and> (runtime_GOOS e = ''windows'' \<and> (\<forall>c\<in>set (windowsExeName e). (of_char c :: nat) < 128) \<longrightarrow>
        fst (IsWindowsGUI e s)
          = (map asciiLower (windowsExeName e) = ''tailscale-ipn.exe''
             \<or> map asciiLower (windowsExeName e) = ''tailscale-ipn''))
   \<and> (runtime_GOOS e = ''windows'' \<and> os_Executable_result e = None \<longrightarrow>
        fst (fst (os_Executable e s)) = [] \<and> windowsExeName e = ''.''
        \<and> fst (IsWindowsGUI e s) = False)"
proof -
  have off: "runtime_GOOS e \<noteq> ''windows'' \<longrightarrow> IsWindowsGUI e s = (False, s)"
    by (simp add: IsWindowsGUI_def)
  have on: "runtime_GOOS e = ''windows'' \<longrightarrow>
      fst (IsWindowsGUI e s)
        = (strings_EqualFold (strings_hasUnicode e) (windowsExeName e) ''tailscale-ipn.exe''
           \<or> strings_EqualFold (strings_hasUnicode e) (windowsExeName e) ''tailscale-ipn'')
      \<and> executableCalls (snd (IsWindowsGUI e s)) = Suc (executableCalls s)"
  proof
    assume win: "runtime_GOOS e = ''windows''"
    then have "executableCalls (snd (IsWindowsGUI e s)) = Suc (executableCalls s)"
      by (simp add: IsWindowsGUI_def os_Executable_def Let_def case_prod_beta)
    with IsWindowsGUI_name [OF win, of s]
    show "fst (IsWindowsGUI e s)
        = (strings_EqualFold (strings_hasUnicode e) (windowsExeName e) ''tailscale-ipn.exe''
           \<or> strings_EqualFold (strings_hasUnicode e) (windowsExeName e) ''tailscale-ipn'')
      \<and> executableCalls (snd (IsWindowsGUI e s)) = Suc (executableCalls s)"
      by (rule conjI)
  qed
  have ascii: "runtime_GOOS e = ''windows''
      \<and> (\<forall>c\<in>set (windowsExeName e). (of_char c :: nat) < 128) \<longrightarrow>
      fst (IsWindowsGUI e s)
        = (map asciiLower (windowsExeName e) = ''tailscale-ipn.exe''
           \<or> map asciiLower (windowsExeName e) = ''tailscale-ipn'')"
  proof
    assume "runtime_GOOS e = ''windows''
      \<and> (\<forall>c\<in>set (windowsExeName e). (of_char c :: nat) < 128)"
    then have win: "runtime_GOOS e = ''windows''"
      and name: "\<forall>c\<in>set (windowsExeName e). (of_char c :: nat) < 128"
      by simp_all
    show "fst (IsWindowsGUI e s)
        = (map asciiLower (windowsExeName e) = ''tailscale-ipn.exe''
           \<or> map asciiLower (windowsExeName e) = ''tailscale-ipn'')"
      using strings_EqualFold_ascii [OF name lower_names(3)]
        strings_EqualFold_ascii [OF name lower_names(4)]
      by (simp only: IsWindowsGUI_name [OF win] lower_names)
  qed
  have fail: "runtime_GOOS e = ''windows'' \<and> os_Executable_result e = None \<longrightarrow>
      fst (fst (os_Executable e s)) = [] \<and> windowsExeName e = ''.''
      \<and> fst (IsWindowsGUI e s) = False"
  proof
    assume "runtime_GOOS e = ''windows'' \<and> os_Executable_result e = None"
    then have win: "runtime_GOOS e = ''windows''" and none: "os_Executable_result e = None"
      by simp_all
    have name: "windowsExeName e = ''.''"
      using none
      by (simp add: windowsExeName_def filepath_Base_windows_def filepath_Base_on_empty)
    then show "fst (fst (os_Executable e s)) = [] \<and> windowsExeName e = ''.''
        \<and> fst (IsWindowsGUI e s) = False"
      using none by (simp add: IsWindowsGUI_name [OF win] os_Executable_def)
  qed
  from off on ascii fail show ?thesis
    by (intro conjI)
qed

theorem IsWindowsGUI_rules_witness:
  "IsWindowsGUI example_env init_state = (False, init_state)
   \<and> windowsExeName windows_env = ''Tailscale-IPN.EXE''
   \<and> fst (IsWindowsGUI windows_env init_state)
   \<and> executableCalls (snd (IsWindowsGUI windows_env init_state)) = 1
   \<and> windowsExeName failing_windows_env = ''.''
   \<and> fst (IsWindowsGUI failing_windows_env init_state) = False"
proof -
  have linux: "runtime_GOOS example_env \<noteq> ''windows''"
    by (simp add: example_env_def)
  have win: "runtime_GOOS windows_env = ''windows''"
    by (simp add: windows_env_def)
  have ascii: "\<forall>c\<in>set (windowsExeName windows_env). (of_char c :: nat) < 128"
    by (simp add: windows_env_name)
  have lower: "map asciiLower (windowsExeName windows_env) = ''tailscale-ipn.exe''"
    unfolding windows_env_name by code_simp
  have fail: "runtime_GOOS failing_windows_env = ''windows''
      \<and> os_Executable_result failing_windows_env = None"
    by (simp add: failing_windows_env_def)
  have zero: "executableCalls init_state = 0"
    by (simp add: init_state_def)
  from IsWindowsGUI_rules [of example_env init_state] linux
  have 1: "IsWindowsGUI example_env init_state = (False, init_state)" by blast
  from IsWindowsGUI_rules [of windows_env init_state] win
  have calls: "executableCalls (snd (IsWindowsGUI windows_env init_state))
      = Suc (executableCalls init_state)"
    by blast
  have "fst (IsWindowsGUI windows_env init_state)
      = (map asciiLower (windowsExeName windows_env) = ''tailscale-ipn.exe''
         \<or> map asciiLower (windowsExeName windows_env) = ''tailscale-ipn'')"
    by (rule IsWindowsGUI_rules [of windows_env init_state,
          THEN conjunct2, THEN conjunct2, THEN conjunct1, THEN mp, OF conjI [OF win ascii]])
  with lower calls zero
  have 2: "fst (IsWindowsGUI windows_env init_state)
      \<and> executableCalls (snd (IsWindowsGUI windows_env init_state)) = 1"
    by simp
  from IsWindowsGUI_rules [of failing_windows_env init_state] fail
  have 3: "windowsExeName failing_windows_env = ''.''
      \<and> fst (IsWindowsGUI failing_windows_env init_state) = False"
    by blast
  from 1 2 3 windows_env_name show ?thesis by simp
qed

text \<open>The unstable-build flag. At every point of a process \<^verbatim>\<open>IsUnstableBuild\<close>
  returns true iff the version has a minor field, \<^verbatim>\<open>strconv.Atoi\<close> accepts it, and
  the integer is odd and positive.\<close>

lemma IsUnstableBuild_rule:
  "fst (IsUnstableBuild e (run e cs init_state)) =
     (case minorField (version_Short e) of
        None \<Rightarrow> False
      | Some minorStr \<Rightarrow>
          (case strconv_Atoi (strconv_IntSize e) minorStr of
             None \<Rightarrow> False
           | Some minor \<Rightarrow> 0 < minor \<and> odd minor))"
proof -
  have "caches_ok e (run e cs init_state)"
    by (simp add: run_ok caches_ok_init)
  then show ?thesis
    by (simp add: unstable_result unstable_of_eq)
qed

text \<open>A minor field that \<^verbatim>\<open>strconv.Atoi\<close> accepts and that does not start with
  \<^verbatim>\<open>-\<close> is a non-negative integer.\<close>

lemma parseDigits_nonneg: "parseDigits ds n = Some k \<Longrightarrow> 0 \<le> n \<Longrightarrow> 0 \<le> k"
proof (induction ds arbitrary: n)
  case Nil
  then show ?case by simp
next
  case (Cons c cs)
  from Cons.prems(1) have digit: "(48::int) \<le> of_char c \<and> of_char c \<le> (57::int)"
    and rest: "parseDigits cs (n * 10 + (of_char c - 48)) = Some k"
    by (simp_all split: if_splits)
  from digit Cons.prems(2) have "0 \<le> n * 10 + (of_char c - 48)"
    by simp
  with rest show ?case by (rule Cons.IH)
qed

lemma strconv_Atoi_unsigned_nonneg:
  assumes "strconv_Atoi bits m = Some k" and "\<not> strings_HasPrefix m ''-''"
  shows "0 \<le> k"
proof (cases m)
  case Nil
  with assms(1) show ?thesis by (simp add: strconv_Atoi_def)
next
  case (Cons c cs)
  with assms(2) have notneg: "c \<noteq> CHR ''-''"
    by (simp add: strings_HasPrefix_def)
  let ?ds = "if c = CHR ''+'' then cs else m"
  from assms(1) Cons notneg obtain un where un: "parseDigits ?ds 0 = Some un" and k: "k = un"
    by (auto simp: strconv_Atoi_def Let_def split: if_splits option.splits)
  from un have "0 \<le> un" by (rule parseDigits_nonneg) simp
  with k show ?thesis by simp
qed

text \<open>
  C1 says that with a minor field that is a valid integer the result is true iff the
  integer is odd. For the short version \<^verbatim>\<open>"1.-3.0"\<close> the two cuts succeed, the minor
  field \<^verbatim>\<open>"-3"\<close> parses to the odd integer \<open>-3\<close>, Go's \<^verbatim>\<open>-3 % 2\<close> is \<open>-1\<close>,
  not \<open>1\<close>, and \<^verbatim>\<open>IsUnstableBuild\<close> returns false.
\<close>

theorem IsUnstableBuild_negative_odd_minor:
  "minorField ''1.-3.0'' = Some ''-3''
   \<and> strings_Cut ''1.-3.0'' ''.'' = (''1'', ''-3.0'', True)
   \<and> strings_Cut ''-3.0'' ''.'' = (''-3'', ''0'', True)
   \<and> strconv_Atoi 64 ''-3'' = Some (- 3)
   \<and> odd (- 3 :: int)
   \<and> go_rem (- 3) 2 = - 1
   \<and> fst (IsUnstableBuild (example_env\<lparr>version_Short := ''1.-3.0''\<rparr>) init_state) = False"
  by (simp add: example_env_def IsUnstableBuild_def isUnstableOnce_Do_def init_state_def
      initUnstable_def strings_Cut_def strings_HasPrefix_def strconv_Atoi_def go_rem_def
      minorField_def)

text \<open>
  C1, with the sign of the minor taken into account. For every short-version string
  and at every point of a process, \<^verbatim>\<open>IsUnstableBuild\<close> returns false when the string
  has fewer than two \<^verbatim>\<open>.\<close> separators or when \<^verbatim>\<open>strconv.Atoi\<close> rejects the minor
  field; otherwise it returns true iff the parsed minor integer is odd and positive.
  For a minor field without a leading \<^verbatim>\<open>-\<close>, as every stamped
  \<^verbatim>\<open>major.minor.patch\<close> version has, that is: iff the integer is odd. The versions
  \<^verbatim>\<open>"1.2.0"\<close>, \<^verbatim>\<open>"1.3.0"\<close>, \<^verbatim>\<open>"1.x.0"\<close> and \<^verbatim>\<open>"1"\<close> give false, true,
  false and false.
\<close>

theorem IsUnstableBuild_minor_parity:
  "fst (IsUnstableBuild e (run e cs init_state)) =
     (case minorField (version_Short e) of
        None \<Rightarrow> False
      | Some minorStr \<Rightarrow>
          (case strconv_Atoi (strconv_IntSize e) minorStr of
             None \<Rightarrow> False
           | Some minor \<Rightarrow> 0 < minor \<and> odd minor))
   \<and> (\<forall>minorStr minor.
         minorField (version_Short e) = Some minorStr
         \<and> strconv_Atoi (strconv_IntSize e) minorStr = Some minor
         \<and> \<not> strings_HasPrefix minorStr ''-''
         \<longrightarrow> fst (IsUnstableBuild e (run e cs init_state)) = odd minor)"
proof -
  have rule: "fst (IsUnstableBuild e (run e cs init_state)) =
     (case minorField (version_Short e) of
        None \<Rightarrow> False
      | Some minorStr \<Rightarrow>
          (case strconv_Atoi (strconv_IntSize e) minorStr of
             None \<Rightarrow> False
           | Some minor \<Rightarrow> 0 < minor \<and> odd minor))"
    by (rule IsUnstableBuild_rule)
  have "fst (IsUnstableBuild e (run e cs init_state)) = odd minor"
    if "minorField (version_Short e) = Some minorStr"
      and "strconv_Atoi (strconv_IntSize e) minorStr = Some minor"
      and "\<not> strings_HasPrefix minorStr ''-''"
    for minorStr minor
  proof -
    from that(2,3) have "0 \<le> minor"
      by (rule strconv_Atoi_unsigned_nonneg)
    then have "(0 < minor \<and> odd minor) = odd minor"
      by (cases "minor = 0") auto
    with rule that(1,2) show ?thesis by simp
  qed
  with rule show ?thesis by blast
qed

theorem IsUnstableBuild_minor_parity_witness:
  "fst (IsUnstableBuild (example_env\<lparr>version_Short := ''1.2.0''\<rparr>) init_state) = False
   \<and> fst (IsUnstableBuild (example_env\<lparr>version_Short := ''1.3.0''\<rparr>) init_state) = True
   \<and> fst (IsUnstableBuild (example_env\<lparr>version_Short := ''1.x.0''\<rparr>) init_state) = False
   \<and> fst (IsUnstableBuild (example_env\<lparr>version_Short := ''1''\<rparr>) init_state) = False
   \<and> minorField ''1.3.0'' = Some ''3''
   \<and> strconv_Atoi 64 ''3'' = Some 3
   \<and> \<not> strings_HasPrefix ''3'' ''-''"
proof -
  have fields: "minorField ''1.2.0'' = Some ''2''" "minorField ''1.3.0'' = Some ''3''"
    "minorField ''1.x.0'' = Some ''x''" "minorField ''1'' = None"
    by (simp_all add: minorField_def)
  have ints: "strconv_Atoi 64 ''2'' = Some 2" "strconv_Atoi 64 ''3'' = Some 3"
    "strconv_Atoi 64 ''x'' = None"
    by (simp_all add: strconv_Atoi_def)
  have unsigned: "\<not> strings_HasPrefix ''3'' ''-''"
    by (simp add: strings_HasPrefix_def)
  have size: "strconv_IntSize (example_env\<lparr>version_Short := v\<rparr>) = 64" for v
    by (simp add: example_env_def)
  have start: "run e [] init_state = init_state" for e
    by simp
  note parity = IsUnstableBuild_minor_parity [of _ "[]", unfolded start, THEN conjunct1]
  have 1: "fst (IsUnstableBuild (example_env\<lparr>version_Short := ''1.2.0''\<rparr>) init_state) = False"
    using parity [of "example_env\<lparr>version_Short := ''1.2.0''\<rparr>"]
    by (simp add: fields ints size)
  have 3: "fst (IsUnstableBuild (example_env\<lparr>version_Short := ''1.x.0''\<rparr>) init_state) = False"
    using parity [of "example_env\<lparr>version_Short := ''1.x.0''\<rparr>"]
    by (simp add: fields ints size)
  have 4: "fst (IsUnstableBuild (example_env\<lparr>version_Short := ''1''\<rparr>) init_state) = False"
    using parity [of "example_env\<lparr>version_Short := ''1''\<rparr>"]
    by (simp add: fields ints size)
  have "fst (IsUnstableBuild (example_env\<lparr>version_Short := ''1.3.0''\<rparr>) init_state)
      = odd (3::int)"
    using IsUnstableBuild_minor_parity [of "example_env\<lparr>version_Short := ''1.3.0''\<rparr>" "[]",
        unfolded start, THEN conjunct2, THEN spec, THEN spec, of "''3''" 3]
    by (simp add: fields ints size unsigned)
  then have 2: "fst (IsUnstableBuild (example_env\<lparr>version_Short := ''1.3.0''\<rparr>) init_state) = True"
    by simp
  from 1 2 3 4 fields(2) ints(2) unsigned show ?thesis by simp
qed

end
